theory Spec2Isabelle
  imports Main "HOL-Library.Sublist"
begin

section \<open>Data model\<close>

text \<open>
  The development embeds \<^verbatim>\<open>byteps/_keras/__init__.py\<close>: the optimizer class that
  \<^verbatim>\<open>create_distributed_optimizer\<close> builds, with its two aggregation paths
  \<^verbatim>\<open>_push_pull_tf\<close> (direct mode) and \<^verbatim>\<open>_push_pull_xla\<close> (accelerated mode) and the
  guard in \<^verbatim>\<open>apply_gradients\<close>.

  A gradient is a dense tensor or an \<^verbatim>\<open>tf.IndexedSlices\<close> value; the payload type \<open>'a\<close> is
  left open. An absent gradient is Python's \<^verbatim>\<open>None\<close>, so a gradient list is a list of
  \<open>'a grad option\<close>.
\<close>

datatype 'a grad = Tensor 'a | IndexedSlices 'a

fun isinstance_IndexedSlices :: "'a grad \<Rightarrow> bool" where
  "isinstance_IndexedSlices (IndexedSlices v) = True"
| "isinstance_IndexedSlices (Tensor v) = False"

text \<open>
  What the source raises: the \<^verbatim>\<open>Exception\<close> of \<^verbatim>\<open>apply_gradients\<close> with its message, the
  \<^verbatim>\<open>TypeError\<close> of \<^verbatim>\<open>zip(*rows)\<close> on a row that is \<^verbatim>\<open>None\<close>, the \<^verbatim>\<open>IndexError\<close> of indexing
  an empty list, and whatever a call into the collective client or the compression
  strategy raises (\<open>Failure\<close>), which the source never catches.
\<close>

datatype 'e error = Exception string | TypeError | IndexError | Failure 'e

text \<open>
  The calls the two aggregators make into their collaborators, in the order they are
  made. The name scope, the device hints and the compression object are the same in
  every call of one optimizer and are not recorded.
\<close>

datatype ('a, 'n, 'h, 'c, 'b) call =
    PushPull "'a grad"
  | PushPullXla "'a grad" nat
  | Barrier "'h list"
  | SyncTensors 'a 'b 'n nat
  | Decompress 'a 'c

text \<open>
  The collaborators the module imports: \<^verbatim>\<open>bps.size\<close>, \<^verbatim>\<open>tf.convert_to_tensor\<close>,
  \<^verbatim>\<open>bps.push_pull\<close>, \<^verbatim>\<open>push_pull_xla_handle_out_v2\<close> (which returns the result tensor,
  its name, the handle of the operation and the compression context),
  \<^verbatim>\<open>_my_barrier_handle_out\<close>, \<^verbatim>\<open>_sync_tensors_handle_out_v2\<close> and
  \<^verbatim>\<open>compression.decompress\<close>. Each call that reaches the collective engine either returns
  (\<open>Inr\<close>) or raises (\<open>Inl\<close>). The last field is Python's \<^verbatim>\<open>print\<close>, which
  \<^verbatim>\<open>_push_pull_xla\<close> calls on every gradient: it formats its argument and writes to standard
  output, and either step can raise.
\<close>

record ('a, 'n, 'h, 'c, 'b, 'e) client =
  bps_size :: int
  convert_to_tensor :: "'a grad \<Rightarrow> 'a"
  push_pull :: "'a grad \<Rightarrow> 'e + 'a grad"
  push_pull_xla_handle_out_v2 :: "'a grad \<Rightarrow> nat \<Rightarrow> 'e + ('a \<times> 'n \<times> 'h \<times> 'c)"
  my_barrier_handle_out :: "'h list \<Rightarrow> 'e + 'b"
  sync_tensors_handle_out_v2 :: "'a \<Rightarrow> 'b \<Rightarrow> 'n \<Rightarrow> nat \<Rightarrow> 'e + 'a"
  decompress :: "'a \<Rightarrow> 'c \<Rightarrow> 'e + 'a"
  print :: "'a grad option \<Rightarrow> 'e + unit"

text \<open>
  The state of a \<^verbatim>\<open>_DistributedOptimizer\<close>: the fields \<^verbatim>\<open>__init__\<close> sets that the
  aggregation paths read or write. \<^verbatim>\<open>self._push_pull\<close> is bound once to one of the two
  methods.
\<close>

datatype aggregator = Push_pull_tf | Push_pull_xla

record optimizer =
  sparse_as_dense :: bool
  aggregated_gradients :: bool
  push_pull_method :: aggregator

definition init :: "string \<Rightarrow> bool \<Rightarrow> optimizer" where
  "init enable_xla sad =
     \<lparr>sparse_as_dense = sad,
      aggregated_gradients = False,
      push_pull_method = (if enable_xla = ''1'' then Push_pull_xla else Push_pull_tf)\<rparr>"

section \<open>Direct mode\<close>

text \<open>
  The loop of \<^verbatim>\<open>_push_pull_tf\<close> over the gradients, with the list \<^verbatim>\<open>averaged_gradients\<close> it
  appends to. It returns the outcome and the calls it made; a call that raises ends the
  loop.
\<close>

fun push_pull_tf_loop ::
  "('a, 'n, 'h, 'c, 'b, 'e) client \<Rightarrow> bool \<Rightarrow> 'a grad option list \<Rightarrow> 'a grad option list \<Rightarrow>
     ('e error + 'a grad option list) \<times> ('a, 'n, 'h, 'c, 'b) call list" where
  "push_pull_tf_loop cl sad [] averaged_gradients = (Inr averaged_gradients, [])"
| "push_pull_tf_loop cl sad (None # gradients) averaged_gradients =
     push_pull_tf_loop cl sad gradients (averaged_gradients @ [None])"
| "push_pull_tf_loop cl sad (Some grad # gradients) averaged_gradients =
     (let grad' = (if sad \<and> isinstance_IndexedSlices grad
                   then Tensor (convert_to_tensor cl grad) else grad)
      in case push_pull cl grad' of
           Inl e \<Rightarrow> (Inl (Failure e), [PushPull grad'])
         | Inr avg_grad \<Rightarrow>
             (case push_pull_tf_loop cl sad gradients (averaged_gradients @ [Some avg_grad]) of
                (r, calls) \<Rightarrow> (r, PushPull grad' # calls)))"

definition push_pull_tf ::
  "('a, 'n, 'h, 'c, 'b, 'e) client \<Rightarrow> optimizer \<Rightarrow> 'a grad option list \<Rightarrow>
     ('e error + 'a grad option list) \<times> optimizer \<times> ('a, 'n, 'h, 'c, 'b) call list" where
  "push_pull_tf cl self gradients =
     (let self' = self\<lparr>aggregated_gradients := True\<rparr>
      in if bps_size cl > 1
         then (case push_pull_tf_loop cl (sparse_as_dense self') gradients [] of
                 (r, calls) \<Rightarrow> (r, self', calls))
         else (Inr gradients, self', []))"

section \<open>Accelerated mode\<close>

text \<open>
  A list comprehension whose element expression calls a collaborator: the elements are
  evaluated from left to right, and the first call that raises abandons the rest.
\<close>

fun comprehension ::
  "('x \<Rightarrow> ('err + 'y) \<times> 'ev list) \<Rightarrow> 'x list \<Rightarrow> ('err + 'y list) \<times> 'ev list" where
  "comprehension f [] = (Inr [], [])"
| "comprehension f (x # xs) =
     (case f x of
        (Inl e, calls) \<Rightarrow> (Inl e, calls)
      | (Inr y, calls) \<Rightarrow>
          (case comprehension f xs of
             (Inl e, calls') \<Rightarrow> (Inl e, calls @ calls')
           | (Inr ys, calls') \<Rightarrow> (Inr (y # ys), calls @ calls')))"

text \<open>
  \<^verbatim>\<open>list(zip(*rows))\<close> followed by the reads of its elements 0 to 3. A row is the 4-tuple
  of an issued operation or \<^verbatim>\<open>None\<close>. \<^verbatim>\<open>zip\<close> raises \<^verbatim>\<open>TypeError\<close> on an argument that is
  \<^verbatim>\<open>None\<close>; on no argument at all it yields nothing, and reading element 0 of the empty
  list raises \<^verbatim>\<open>IndexError\<close>; otherwise the four columns come out.
\<close>

definition zip_star ::
  "('a \<times> 'n \<times> 'h \<times> 'c) option list \<Rightarrow> 'e error + ('a list \<times> 'n list \<times> 'h list \<times> 'c list)" where
  "zip_star rows =
     (if None \<in> set rows then Inl TypeError
      else if rows = [] then Inl IndexError
      else Inr (map (\<lambda>r. fst (the r)) rows,
                map (\<lambda>r. fst (snd (the r))) rows,
                map (\<lambda>r. fst (snd (snd (the r)))) rows,
                map (\<lambda>r. snd (snd (snd (the r)))) rows))"

text \<open>The three comprehensions of \<^verbatim>\<open>_push_pull_xla\<close>: issue, bind to the barrier, decompress.\<close>

definition issue ::
  "('a, 'n, 'h, 'c, 'b, 'e) client \<Rightarrow> nat \<times> 'a grad option \<Rightarrow>
     ('e error + ('a \<times> 'n \<times> 'h \<times> 'c) option) \<times> ('a, 'n, 'h, 'c, 'b) call list" where
  "issue cl = (\<lambda>(idx, grad).
     case grad of
       None \<Rightarrow> (Inr None, [])
     | Some g \<Rightarrow>
         (case push_pull_xla_handle_out_v2 cl g idx of
            Inl e \<Rightarrow> (Inl (Failure e), [PushPullXla g idx])
          | Inr row \<Rightarrow> (Inr (Some row), [PushPullXla g idx])))"

definition sync ::
  "('a, 'n, 'h, 'c, 'b, 'e) client \<Rightarrow> 'b \<Rightarrow> nat \<times> 'a \<times> 'n \<Rightarrow>
     ('e error + 'a) \<times> ('a, 'n, 'h, 'c, 'b) call list" where
  "sync cl barrier_handle = (\<lambda>(idx, tensor, item).
     case sync_tensors_handle_out_v2 cl tensor barrier_handle item idx of
       Inl e \<Rightarrow> (Inl (Failure e), [SyncTensors tensor barrier_handle item idx])
     | Inr t \<Rightarrow> (Inr t, [SyncTensors tensor barrier_handle item idx]))"

definition decomp ::
  "('a, 'n, 'h, 'c, 'b, 'e) client \<Rightarrow> 'a \<times> 'c \<Rightarrow>
     ('e error + 'a) \<times> ('a, 'n, 'h, 'c, 'b) call list" where
  "decomp cl = (\<lambda>(item, ctx).
     case decompress cl item ctx of
       Inl e \<Rightarrow> (Inl (Failure e), [Decompress item ctx])
     | Inr t \<Rightarrow> (Inr t, [Decompress item ctx]))"

text \<open>The densifying comprehension, run only when \<^verbatim>\<open>self._sparse_as_dense\<close> is set.\<close>

definition densify ::
  "('a, 'n, 'h, 'c, 'b, 'e) client \<Rightarrow> 'a grad option \<Rightarrow> 'a grad option" where
  "densify cl grad =
     (case grad of
        None \<Rightarrow> None
      | Some g \<Rightarrow> if isinstance_IndexedSlices g then Some (Tensor (convert_to_tensor cl g))
                  else Some g)"

text \<open>
  \<^verbatim>\<open>_push_pull_xla\<close> has two parts. Lines 81 and 82 print every gradient; line 83 sets the
  flag and the lines after it do the aggregation. \<open>push_pull_xla\<close> is the second part,
  lines 83 to 111: what an invocation does once the print loop has completed.
  \<open>print_loop\<close> is the first part, and \<open>push_pull_xla_method\<close> below is the whole method.
\<close>

definition push_pull_xla ::
  "('a, 'n, 'h, 'c, 'b, 'e) client \<Rightarrow> optimizer \<Rightarrow> 'a grad option list \<Rightarrow>
     ('e error + 'a grad option list) \<times> optimizer \<times> ('a, 'n, 'h, 'c, 'b) call list" where
  "push_pull_xla cl self grads =
     (let self' = self\<lparr>aggregated_gradients := True\<rparr>
      in if bps_size cl \<le> 1 then (Inr grads, self', [])
         else
           let grads' = (if sparse_as_dense self' then map (densify cl) grads else grads)
           in case comprehension (issue cl) (enumerate 1 grads') of
                (Inl e, calls1) \<Rightarrow> (Inl e, self', calls1)
              | (Inr rows, calls1) \<Rightarrow>
                  (case zip_star rows of
                     Inl e \<Rightarrow> (Inl e, self', calls1)
                   | Inr (avg_grads, grad_names, handles, ctxes) \<Rightarrow>
                       (case my_barrier_handle_out cl handles of
                          Inl e \<Rightarrow> (Inl (Failure e), self', calls1 @ [Barrier handles])
                        | Inr barrier_handle \<Rightarrow>
                            (case comprehension (sync cl barrier_handle)
                                    (enumerate 1 (zip avg_grads grad_names)) of
                               (Inl e, calls2) \<Rightarrow>
                                 (Inl e, self', calls1 @ [Barrier handles] @ calls2)
                             | (Inr synced, calls2) \<Rightarrow>
                                 (case comprehension (decomp cl) (zip synced ctxes) of
                                    (Inl e, calls3) \<Rightarrow>
                                      (Inl e, self', calls1 @ [Barrier handles] @ calls2 @ calls3)
                                  | (Inr out, calls3) \<Rightarrow>
                                      (Inr (map (\<lambda>t. Some (Tensor t)) out), self',
                                       calls1 @ [Barrier handles] @ calls2 @ calls3))))))"

text \<open>
  The loop of lines 81 and 82. A \<^verbatim>\<open>print\<close> that raises ends the method there: the flag
  has not been written yet and no collaborator has been called.
\<close>

fun print_loop ::
  "('a, 'n, 'h, 'c, 'b, 'e) client \<Rightarrow> 'a grad option list \<Rightarrow> 'e error + unit" where
  "print_loop cl [] = Inr ()"
| "print_loop cl (item # grads) =
     (case print cl item of
        Inl e \<Rightarrow> Inl (Failure e)
      | Inr u \<Rightarrow> print_loop cl grads)"

definition push_pull_xla_method ::
  "('a, 'n, 'h, 'c, 'b, 'e) client \<Rightarrow> optimizer \<Rightarrow> 'a grad option list \<Rightarrow>
     ('e error + 'a grad option list) \<times> optimizer \<times> ('a, 'n, 'h, 'c, 'b) call list" where
  "push_pull_xla_method cl self grads =
     (case print_loop cl grads of
        Inl e \<Rightarrow> (Inl e, self, [])
      | Inr u \<Rightarrow> push_pull_xla cl self grads)"

section \<open>The optimizer's methods\<close>

text \<open>
  \<^verbatim>\<open>self._push_pull\<close> dispatches on the method bound at construction.
  \<^verbatim>\<open>get_gradients\<close> first calls the base optimizer's \<^verbatim>\<open>get_gradients\<close> (line 52); the
  outcome of that call is the argument \<open>base\<close>: when it raises, the method ends there,
  before \<^verbatim>\<open>self._push_pull\<close>, and when it returns a list the list goes to
  \<^verbatim>\<open>self._push_pull\<close>. \<^verbatim>\<open>_aggregate_gradients\<close> passes the gradients of its pairs.
  \<^verbatim>\<open>apply_gradients\<close> raises unless the flag is set and otherwise returns what the base
  optimizer's \<^verbatim>\<open>apply_gradients\<close> does, which the model takes as the function
  \<open>super_apply_gradients\<close>.
\<close>

definition self_push_pull ::
  "('a, 'n, 'h, 'c, 'b, 'e) client \<Rightarrow> optimizer \<Rightarrow> 'a grad option list \<Rightarrow>
     ('e error + 'a grad option list) \<times> optimizer \<times> ('a, 'n, 'h, 'c, 'b) call list" where
  "self_push_pull cl self gradients =
     (case push_pull_method self of
        Push_pull_xla \<Rightarrow> push_pull_xla_method cl self gradients
      | Push_pull_tf \<Rightarrow> push_pull_tf cl self gradients)"

definition get_gradients ::
  "('a, 'n, 'h, 'c, 'b, 'e) client \<Rightarrow> optimizer \<Rightarrow> 'e + 'a grad option list \<Rightarrow>
     ('e error + 'a grad option list) \<times> optimizer \<times> ('a, 'n, 'h, 'c, 'b) call list" where
  "get_gradients cl self base =
     (case base of
        Inl e \<Rightarrow> (Inl (Failure e), self, [])
      | Inr gradients \<Rightarrow> self_push_pull cl self gradients)"

definition aggregate_gradients ::
  "('a, 'n, 'h, 'c, 'b, 'e) client \<Rightarrow> optimizer \<Rightarrow> ('a grad option \<times> 'v) list \<Rightarrow>
     ('e error + 'a grad option list) \<times> optimizer \<times> ('a, 'n, 'h, 'c, 'b) call list" where
  "aggregate_gradients cl self grads_and_vars =
     (let gradients = map fst grads_and_vars in self_push_pull cl self gradients)"

definition apply_gradients_message :: string where
  "apply_gradients_message =
     ''`apply_gradients()` was called without a call to `get_gradients()` or `_aggregate_gradients`. '' @
     ''If you'' @ [CHR 0x27] @ ''re using TensorFlow 2.0, please specify '' @
     ''`experimental_run_tf_function=False` in `compile()`.''"

definition apply_gradients ::
  "('args \<Rightarrow> 'r) \<Rightarrow> optimizer \<Rightarrow> 'args \<Rightarrow> 'e error + 'r" where
  "apply_gradients super_apply_gradients self args =
     (if \<not> aggregated_gradients self then Inl (Exception apply_gradients_message)
      else Inr (super_apply_gradients args))"

section \<open>Histories of method calls\<close>

text \<open>
  A client of the optimizer calls its methods one after another on the same object. A call
  leaves the object in the state the method reached, whether it returned or raised.
  \<^verbatim>\<open>apply_gradients\<close> writes none of the fields of the model.
\<close>

datatype ('a, 'v, 'args, 'e) method_call =
    Get_gradients "'e + 'a grad option list"
  | Aggregate_gradients "('a grad option \<times> 'v) list"
  | Apply_gradients 'args

text \<open>
  The calls that invoke \<^verbatim>\<open>self._push_pull\<close>: every \<^verbatim>\<open>_aggregate_gradients\<close>, and a
  \<^verbatim>\<open>get_gradients\<close> in which the base optimizer's \<^verbatim>\<open>get_gradients\<close> returned.
\<close>

fun reaches_push_pull :: "('a, 'v, 'args, 'e) method_call \<Rightarrow> bool" where
  "reaches_push_pull (Get_gradients (Inr gradients)) = True"
| "reaches_push_pull (Get_gradients (Inl e)) = False"
| "reaches_push_pull (Aggregate_gradients grads_and_vars) = True"
| "reaches_push_pull (Apply_gradients args) = False"

fun invoke ::
  "('a, 'n, 'h, 'c, 'b, 'e) client \<Rightarrow> optimizer \<Rightarrow> ('a, 'v, 'args, 'e) method_call \<Rightarrow> optimizer" where
  "invoke cl self (Get_gradients base) = fst (snd (get_gradients cl self base))"
| "invoke cl self (Aggregate_gradients grads_and_vars) =
     fst (snd (aggregate_gradients cl self grads_and_vars))"
| "invoke cl self (Apply_gradients args) = self"

section \<open>Vocabulary of the properties\<close>

text \<open>
  The functions below belong to the statements, not to the program. \<open>until_raise f xs\<close>
  is the part of \<open>xs\<close> on which \<open>f\<close> is called when the calls go from left to right and
  the first one that raises is the last one made. \<open>prepared\<close> is the gradient as the
  source hands it to a push-pull call, \<open>present\<close> the gradients of a list that are not
  \<^verbatim>\<open>None\<close>, and \<open>positioned\<close> the same with their positions counted from 1 in the
  whole list.
\<close>

fun until_raise :: "('x \<Rightarrow> 'e + 'y) \<Rightarrow> 'x list \<Rightarrow> 'x list" where
  "until_raise f [] = []"
| "until_raise f (x # xs) = (case f x of Inl e \<Rightarrow> [x] | Inr y \<Rightarrow> x # until_raise f xs)"

definition prepared :: "('a, 'n, 'h, 'c, 'b, 'e) client \<Rightarrow> bool \<Rightarrow> 'a grad \<Rightarrow> 'a grad" where
  "prepared cl sad g =
     (if sad \<and> isinstance_IndexedSlices g then Tensor (convert_to_tensor cl g) else g)"

definition present :: "'a option list \<Rightarrow> 'a list" where
  "present gs = map the (filter (\<lambda>g. g \<noteq> None) gs)"

definition somes :: "(nat \<times> 'a option) list \<Rightarrow> (nat \<times> 'a) list" where
  "somes xs = map (\<lambda>(i, g). (i, the g)) (filter (\<lambda>(i, g). g \<noteq> None) xs)"

definition positioned :: "'a option list \<Rightarrow> (nat \<times> 'a) list" where
  "positioned gs = somes (enumerate 1 gs)"

text \<open>
  Readers of a list of calls: the index and gradient of each asynchronous push-pull, the
  index, tensor and name of each bind to the barrier, the handle list of each barrier,
  and the gradient handed to each push-pull of either kind.
\<close>

fun issued :: "('a, 'n, 'h, 'c, 'b) call list \<Rightarrow> (nat \<times> 'a grad) list" where
  "issued [] = []"
| "issued (PushPullXla g idx # calls) = (idx, g) # issued calls"
| "issued (c # calls) = issued calls"

fun bound :: "('a, 'n, 'h, 'c, 'b) call list \<Rightarrow> (nat \<times> 'a \<times> 'n) list" where
  "bound [] = []"
| "bound (SyncTensors tensor barrier_handle item idx # calls) = (idx, tensor, item) # bound calls"
| "bound (c # calls) = bound calls"

fun barriers :: "('a, 'n, 'h, 'c, 'b) call list \<Rightarrow> 'h list list" where
  "barriers [] = []"
| "barriers (Barrier handles # calls) = handles # barriers calls"
| "barriers (c # calls) = barriers calls"

fun handed :: "('a, 'n, 'h, 'c, 'b) call list \<Rightarrow> 'a grad list" where
  "handed [] = []"
| "handed (PushPull g # calls) = g # handed calls"
| "handed (PushPullXla g idx # calls) = g # handed calls"
| "handed (c # calls) = handed calls"

text \<open>
  Two clients to run the model on. \<open>fake_client n\<close> has \<open>n\<close> workers and every call
  returns: a push-pull gives its argument back, an asynchronous one gives the payload,
  the index as name, and a handle and a context made from the index. In
  \<open>unreachable_client\<close> both push-pull calls raise. In \<open>closed_stdout_client\<close> every
  \<^verbatim>\<open>print\<close> raises, as it does when standard output has been closed.
\<close>

definition fake_client :: "int \<Rightarrow> (nat, nat, nat, nat, nat, string) client" where
  "fake_client n =
     \<lparr>bps_size = n,
      convert_to_tensor = (\<lambda>g. case g of Tensor v \<Rightarrow> v | IndexedSlices v \<Rightarrow> v),
      push_pull = (\<lambda>g. Inr g),
      push_pull_xla_handle_out_v2 =
        (\<lambda>g idx. Inr (case g of Tensor v \<Rightarrow> v | IndexedSlices v \<Rightarrow> v, idx, 100 + idx, 200 + idx)),
      my_barrier_handle_out = (\<lambda>handles. Inr (length handles)),
      sync_tensors_handle_out_v2 = (\<lambda>tensor barrier_handle item idx. Inr tensor),
      decompress = (\<lambda>tensor ctx. Inr tensor),
      print = (\<lambda>item. Inr ())\<rparr>"

definition unreachable_client :: "(nat, nat, nat, nat, nat, string) client" where
  "unreachable_client =
     (fake_client 2)\<lparr>push_pull := (\<lambda>g. Inl ''unreachable''),
                      push_pull_xla_handle_out_v2 := (\<lambda>g idx. Inl ''unreachable'')\<rparr>"

definition closed_stdout_client :: "(nat, nat, nat, nat, nat, string) client" where
  "closed_stdout_client = (fake_client 2)\<lparr>print := (\<lambda>item. Inl ''I/O operation on closed file'')\<rparr>"

section \<open>Supporting lemmas\<close>

lemma tf_state: "fst (snd (push_pull_tf cl self gs)) = self\<lparr>aggregated_gradients := True\<rparr>"
  by (simp add: push_pull_tf_def Let_def split: prod.splits)

lemma xla_state: "fst (snd (push_pull_xla cl self gs)) = self\<lparr>aggregated_gradients := True\<rparr>"
  by (simp add: push_pull_xla_def Let_def split: prod.splits sum.splits)

lemma somes_simps [simp]:
  "somes [] = []" "somes ((i, None) # xs) = somes xs" "somes ((i, Some g) # xs) = (i, g) # somes xs"
  by (simp_all add: somes_def)

lemma present_simps [simp]:
  "present [] = []" "present (None # gs) = present gs" "present (Some g # gs) = g # present gs"
  by (simp_all add: present_def)

lemma until_raise_all: "\<forall>x \<in> set xs. \<exists>y. f x = Inr y \<Longrightarrow> until_raise f xs = xs"
  by (induction xs) auto

lemma until_raise_prefix: "prefix (until_raise f xs) xs"
  by (induction xs) (auto split: sum.splits)

lemma tf_loop_Some:
  "push_pull_tf_loop cl sad (Some g # gs) acc =
     (case push_pull cl (prepared cl sad g) of
        Inl e \<Rightarrow> (Inl (Failure e), [PushPull (prepared cl sad g)])
      | Inr avg \<Rightarrow>
          (fst (push_pull_tf_loop cl sad gs (acc @ [Some avg])),
           PushPull (prepared cl sad g) # snd (push_pull_tf_loop cl sad gs (acc @ [Some avg]))))"
  by (simp add: prepared_def Let_def split_beta split: sum.splits)

lemma tf_loop_calls:
  "snd (push_pull_tf_loop cl sad gs acc) =
     map PushPull (until_raise (push_pull cl) (map (prepared cl sad) (present gs)))"
proof (induction gs arbitrary: acc)
  case Nil
  show ?case by simp
next
  case (Cons g gs)
  show ?case
  proof (cases g)
    case None
    then show ?thesis using Cons.IH by simp
  next
    case (Some a)
    show ?thesis
      unfolding Some tf_loop_Some using Cons.IH
      by (cases "push_pull cl (prepared cl sad a)") simp_all
  qed
qed

lemma tf_loop_result:
  "fst (push_pull_tf_loop cl sad gs acc) = Inr out \<Longrightarrow>
     map (\<lambda>g. g = None) out = map (\<lambda>g. g = None) (acc @ gs)"
proof (induction gs arbitrary: acc)
  case Nil
  then show ?case by simp
next
  case (Cons g gs)
  show ?case
  proof (cases g)
    case None
    then show ?thesis using Cons.prems Cons.IH[of "acc @ [None]"] by simp
  next
    case (Some a)
    show ?thesis
    proof (cases "push_pull cl (prepared cl sad a)")
      case (Inl e)
      then show ?thesis using Cons.prems unfolding Some tf_loop_Some by simp
    next
      case (Inr avg)
      then have "fst (push_pull_tf_loop cl sad gs (acc @ [Some avg])) = Inr out"
        using Cons.prems unfolding Some tf_loop_Some by simp
      from Cons.IH[OF this] show ?thesis using Some by simp
    qed
  qed
qed

lemma tf_loop_succeeds:
  "\<forall>g. \<exists>y. push_pull cl g = Inr y \<Longrightarrow> \<exists>out. fst (push_pull_tf_loop cl sad gs acc) = Inr out"
proof (induction gs arbitrary: acc)
  case Nil
  then show ?case by simp
next
  case (Cons g gs)
  show ?case
  proof (cases g)
    case None
    then show ?thesis using Cons.IH[OF Cons.prems, of "acc @ [None]"] by simp
  next
    case (Some a)
    obtain y where "push_pull cl (prepared cl sad a) = Inr y" using Cons.prems by blast
    then show ?thesis using Cons.IH[OF Cons.prems, of "acc @ [Some y]"]
      unfolding Some tf_loop_Some by simp
  qed
qed

lemma handed_append: "handed (xs @ ys) = handed xs @ handed ys"
  by (induction xs rule: handed.induct) simp_all

lemma handed_push_pull [simp]: "handed (map PushPull xs) = xs"
  by (induction xs) auto

lemma handed_issue [simp]: "handed (map (\<lambda>(idx, g). PushPullXla g idx) xs) = map snd xs"
  by (induction xs) auto

lemma handed_sync [simp]: "handed (map (\<lambda>(idx, tensor, item). SyncTensors tensor b item idx) xs) = []"
  by (induction xs) auto

lemma handed_decomp [simp]: "handed (map (\<lambda>(item, ctx). Decompress item ctx) xs) = []"
  by (induction xs) auto

lemma issued_append: "issued (xs @ ys) = issued xs @ issued ys"
  by (induction xs rule: issued.induct) simp_all

lemma bound_append: "bound (xs @ ys) = bound xs @ bound ys"
  by (induction xs rule: bound.induct) simp_all

lemma barriers_append: "barriers (xs @ ys) = barriers xs @ barriers ys"
  by (induction xs rule: barriers.induct) simp_all

lemma comprehension_length:
  "comprehension f xs = (Inr ys, calls) \<Longrightarrow> length ys = length xs"
proof (induction xs arbitrary: ys calls)
  case Nil
  then show ?case by simp
next
  case (Cons x xs)
  then show ?case
    by (auto split: prod.splits sum.splits)
qed

lemma comprehension_Inr:
  "comprehension f xs = (Inr ys, calls) \<Longrightarrow>
     list_all2 (\<lambda>x y. fst (f x) = Inr y) xs ys \<and> calls = concat (map (\<lambda>x. snd (f x)) xs)"
proof (induction xs arbitrary: ys calls)
  case Nil
  then show ?case by simp
next
  case (Cons x xs)
  then show ?case
    by (auto split: prod.splits sum.splits)
qed

lemma comprehension_calls:
  assumes "\<And>x. f x = (case g x of Inl e \<Rightarrow> (Inl (Failure e), [ev x]) | Inr y \<Rightarrow> (Inr (h y), [ev x]))"
  shows "snd (comprehension f xs) = map ev (until_raise g xs)"
proof (induction xs)
  case Nil
  show ?case by simp
next
  case (Cons x xs)
  show ?case
  proof (cases "g x")
    case (Inl e)
    then show ?thesis using assms[of x] by simp
  next
    case (Inr y)
    then show ?thesis using assms[of x] Cons.IH
      by (simp add: split_beta split: sum.splits)
  qed
qed

lemma sync_calls:
  "snd (comprehension (sync cl b) xs) =
     map (\<lambda>(idx, tensor, item). SyncTensors tensor b item idx)
       (until_raise (\<lambda>(idx, tensor, item). sync_tensors_handle_out_v2 cl tensor b item idx) xs)"
  by (rule comprehension_calls[where h = id]) (simp add: sync_def split_beta split: sum.splits)

lemma decomp_calls:
  "snd (comprehension (decomp cl) xs) =
     map (\<lambda>(item, ctx). Decompress item ctx)
       (until_raise (\<lambda>(item, ctx). decompress cl item ctx) xs)"
  by (rule comprehension_calls[where h = id]) (simp add: decomp_def split_beta split: sum.splits)

lemma issue_calls:
  "snd (comprehension (issue cl) xs) =
     map (\<lambda>(idx, g). PushPullXla g idx)
       (until_raise (\<lambda>(idx, g). push_pull_xla_handle_out_v2 cl g idx)
          (somes xs))"
proof (induction xs)
  case Nil
  show ?case by simp
next
  case (Cons x xs)
  obtain idx grad where x: "x = (idx, grad)" by (cases x)
  show ?case
  proof (cases grad)
    case None
    then show ?thesis using Cons.IH x
      by (simp add: issue_def split_beta split: sum.splits)
  next
    case (Some g)
    then show ?thesis using Cons.IH x
      by (cases "push_pull_xla_handle_out_v2 cl g idx")
         (simp_all add: issue_def split_beta split: sum.splits)
  qed
qed

lemma issued_issue [simp]: "issued (map (\<lambda>(idx, g). PushPullXla g idx) xs) = xs"
  by (induction xs) auto

lemma issued_sync [simp]: "issued (map (\<lambda>(idx, tensor, item). SyncTensors tensor b item idx) xs) = []"
  by (induction xs) auto

lemma issued_decomp [simp]: "issued (map (\<lambda>(item, ctx). Decompress item ctx) xs) = []"
  by (induction xs) auto

lemma bound_issue [simp]: "bound (map (\<lambda>(idx, g). PushPullXla g idx) xs) = []"
  by (induction xs) auto

lemma bound_sync [simp]: "bound (map (\<lambda>(idx, tensor, item). SyncTensors tensor b item idx) xs) = xs"
  by (induction xs) auto

lemma bound_decomp [simp]: "bound (map (\<lambda>(item, ctx). Decompress item ctx) xs) = []"
  by (induction xs) auto

lemma barriers_issue [simp]: "barriers (map (\<lambda>(idx, g). PushPullXla g idx) xs) = []"
  by (induction xs) auto

lemma barriers_sync [simp]: "barriers (map (\<lambda>(idx, tensor, item). SyncTensors tensor b item idx) xs) = []"
  by (induction xs) auto

lemma barriers_decomp [simp]: "barriers (map (\<lambda>(item, ctx). Decompress item ctx) xs) = []"
  by (induction xs) auto

lemma issue_calls_eq:
  "comprehension (issue cl) xs = (r, calls) \<Longrightarrow>
     calls = map (\<lambda>(idx, g). PushPullXla g idx)
       (until_raise (\<lambda>(idx, g). push_pull_xla_handle_out_v2 cl g idx)
          (somes xs))"
  using issue_calls[of cl xs] by simp

lemma sync_calls_eq:
  "comprehension (sync cl b) xs = (r, calls) \<Longrightarrow>
     calls = map (\<lambda>(idx, tensor, item). SyncTensors tensor b item idx)
       (until_raise (\<lambda>(idx, tensor, item). sync_tensors_handle_out_v2 cl tensor b item idx) xs)"
  using sync_calls[of cl b xs] by simp

lemma decomp_calls_eq:
  "comprehension (decomp cl) xs = (r, calls) \<Longrightarrow>
     calls = map (\<lambda>(item, ctx). Decompress item ctx)
       (until_raise (\<lambda>(item, ctx). decompress cl item ctx) xs)"
  using decomp_calls[of cl xs] by simp

lemma densified_grads:
  "(if sad then map (densify cl) gs else gs) = map (map_option (prepared cl sad)) gs"
proof (cases sad)
  case True
  have "densify cl g = map_option (prepared cl True) g" for g
    by (cases g) (simp_all add: densify_def prepared_def)
  then show ?thesis using True by simp
next
  case False
  have "map_option (prepared cl False) g = g" for g
    by (cases g) (simp_all add: prepared_def)
  then show ?thesis using False by (simp add: map_idI)
qed

lemma somes_map:
  "somes (enumerate n (map (map_option f) gs)) = map (\<lambda>(idx, g). (idx, f g)) (somes (enumerate n gs))"
proof (induction gs arbitrary: n)
  case Nil
  show ?case by simp
next
  case (Cons g gs)
  then show ?case by (cases g) simp_all
qed

lemma xla_issued:
  assumes "1 < bps_size cl"
  shows "issued (snd (snd (push_pull_xla cl self gs))) =
           until_raise (\<lambda>(idx, g). push_pull_xla_handle_out_v2 cl g idx)
             (map (\<lambda>(idx, g). (idx, prepared cl (sparse_as_dense self) g)) (positioned gs))"
  unfolding push_pull_xla_def Let_def densified_grads positioned_def
  using assms
  by (auto simp add: somes_map issued_append
        dest!: issue_calls_eq sync_calls_eq decomp_calls_eq
        split: prod.splits sum.splits)

lemma xla_shape:
  fixes cl :: "('a, 'n, 'h, 'c, 'b, 'e) client"
  assumes "1 < bps_size cl"
  shows "\<exists>rest.
           snd (snd (push_pull_xla cl self gs)) =
             snd (comprehension (issue cl)
                    (enumerate 1 (map (map_option (prepared cl (sparse_as_dense self))) gs))) @ rest \<and>
           issued rest = [] \<and> handed rest = [] \<and>
           (case fst (comprehension (issue cl)
                    (enumerate 1 (map (map_option (prepared cl (sparse_as_dense self))) gs))) of
              Inl e \<Rightarrow> rest = []
            | Inr rows \<Rightarrow>
                (case (zip_star rows :: 'e error + ('a list \<times> 'n list \<times> 'h list \<times> 'c list)) of
                   Inl e \<Rightarrow> rest = []
                 | Inr (avg_grads, grad_names, handles, ctxes) \<Rightarrow>
                     barriers rest = [handles] \<and> hd rest = Barrier handles \<and>
                     prefix (bound rest) (enumerate 1 (zip avg_grads grad_names))))"
  unfolding push_pull_xla_def Let_def densified_grads
  using assms
  by (auto simp add: issued_append bound_append barriers_append handed_append until_raise_prefix
        dest!: sync_calls_eq decomp_calls_eq
        split: prod.splits sum.splits)

lemma until_raise_set: "set (until_raise f xs) \<subseteq> set xs"
  by (rule set_mono_prefix[OF until_raise_prefix])

lemma prefix_distinct: "prefix xs ys \<Longrightarrow> distinct ys \<Longrightarrow> distinct xs"
  by (auto simp add: prefix_def)

lemma until_raise_distinct: "distinct (map h xs) \<Longrightarrow> distinct (map h (until_raise f xs))"
  by (rule prefix_distinct[OF map_mono_prefix[OF until_raise_prefix]])

lemma somes_mem: "(i, g) \<in> set (somes xs) \<longleftrightarrow> (i, Some g) \<in> set xs"
proof (induction xs)
  case Nil
  show ?case by simp
next
  case (Cons x xs)
  obtain j grad where x: "x = (j, grad)" by (cases x)
  show ?case using Cons.IH unfolding x by (cases grad) auto
qed

lemma positioned_mem:
  "(i, g) \<in> set (positioned gs) \<longleftrightarrow> 1 \<le> i \<and> i \<le> length gs \<and> gs ! (i - 1) = Some g"
  unfolding positioned_def somes_mem in_set_enumerate_eq by auto

lemma somes_fst: "map fst (somes xs) = map fst (filter (\<lambda>(i, g). g \<noteq> None) xs)"
  unfolding somes_def by (simp add: split_beta)

lemma positioned_distinct: "distinct (map fst (positioned gs))"
  unfolding positioned_def somes_fst
  by (rule distinct_map_filter) (simp add: map_fst_enumerate)

lemma tf_calls:
  assumes "1 < bps_size cl"
  shows "snd (snd (push_pull_tf cl self gs)) =
           map PushPull (until_raise (push_pull cl)
             (map (prepared cl (sparse_as_dense self)) (present gs)))"
proof -
  have "snd (snd (push_pull_tf cl self gs)) =
          snd (push_pull_tf_loop cl (sparse_as_dense self) gs [])"
    using assms by (simp add: push_pull_tf_def Let_def split_beta)
  then show ?thesis by (simp only: tf_loop_calls)
qed

lemma tf_result:
  assumes "fst (push_pull_tf cl self gs) = Inr out"
  shows "map (\<lambda>g. g = None) out = map (\<lambda>g. g = None) gs"
proof (cases "1 < bps_size cl")
  case True
  then have "fst (push_pull_tf cl self gs) = fst (push_pull_tf_loop cl (sparse_as_dense self) gs [])"
    by (simp add: push_pull_tf_def Let_def split_beta)
  with assms have "fst (push_pull_tf_loop cl (sparse_as_dense self) gs []) = Inr out"
    by simp
  from tf_loop_result[OF this] show ?thesis by simp
next
  case False
  then have "fst (push_pull_tf cl self gs) = Inr gs"
    by (simp add: push_pull_tf_def Let_def)
  with assms show ?thesis by simp
qed

lemma tf_preserves_positions:
  assumes "fst (push_pull_tf cl self gs) = Inr out"
  shows "length out = length gs \<and> (\<forall>i < length gs. out ! i = None \<longleftrightarrow> gs ! i = None)"
proof -
  have eq: "map (\<lambda>g. g = None) out = map (\<lambda>g. g = None) gs"
    by (rule tf_result[OF assms])
  then have len: "length out = length gs"
    by (rule map_eq_imp_length_eq)
  have "(out ! i = None) = (gs ! i = None)" if "i < length gs" for i
  proof -
    have "map (\<lambda>g. g = None) out ! i = map (\<lambda>g. g = None) gs ! i"
      by (simp only: eq)
    then show ?thesis using that len by simp
  qed
  with len show ?thesis by blast
qed

lemma xla_handed:
  fixes cl :: "('a, 'n, 'h, 'c, 'b, 'e) client"
  assumes "1 < bps_size cl"
  shows "handed (snd (snd (push_pull_xla cl self gs))) =
           map snd (issued (snd (snd (push_pull_xla cl self gs))))"
proof -
  let ?xs = "enumerate 1 (map (map_option (prepared cl (sparse_as_dense self))) gs)"
  from xla_shape[OF assms, of self gs] obtain rest where
    calls: "snd (snd (push_pull_xla cl self gs)) = snd (comprehension (issue cl) ?xs) @ rest"
    and rest: "issued rest = []" "handed rest = []"
    by blast
  have "handed (snd (comprehension (issue cl) ?xs) @ rest) =
          map snd (issued (snd (comprehension (issue cl) ?xs) @ rest))"
    by (simp add: issue_calls handed_append issued_append rest)
  then show ?thesis by (simp only: calls)
qed

lemma issue_None_row:
  assumes "comprehension (issue cl) xs = (Inr rows, calls)" and "(i, None) \<in> set xs"
  shows "None \<in> set rows"
proof -
  from comprehension_Inr[OF assms(1)]
  have all: "list_all2 (\<lambda>x y. fst (issue cl x) = Inr y) xs rows" by simp
  from assms(2) obtain k where k: "k < length xs" "xs ! k = (i, None)"
    by (auto simp add: in_set_conv_nth)
  have "fst (issue cl (xs ! k)) = Inr (rows ! k)"
    using list_all2_nthD[OF all k(1)] by simp
  then have "rows ! k = None" using k(2) by (simp add: issue_def)
  moreover have "k < length rows" using k(1) list_all2_lengthD[OF all] by simp
  ultimately show ?thesis by (metis nth_mem)
qed

lemma xla_rejects_None:
  fixes cl :: "('a, 'n, 'h, 'c, 'b, 'e) client"
  assumes size: "1 < bps_size cl" and none: "None \<in> set gs"
  shows "\<exists>e. fst (push_pull_xla cl self gs) = Inl e"
    and "barriers (snd (snd (push_pull_xla cl self gs))) = []"
proof -
  let ?xs = "enumerate 1 (map (map_option (prepared cl (sparse_as_dense self))) gs)"
  obtain r1 calls1 where c1: "comprehension (issue cl) ?xs = (r1, calls1)"
    by (cases "comprehension (issue cl) ?xs")
  from none obtain k where k: "k < length gs" "gs ! k = None"
    by (auto simp add: in_set_conv_nth)
  then have inxs: "(Suc k, None) \<in> set ?xs"
    by (simp add: in_set_enumerate_eq)
  have z: "(zip_star rows :: 'e error + ('a list \<times> 'n list \<times> 'h list \<times> 'c list)) = Inl TypeError"
    if "r1 = Inr rows" for rows
    using issue_None_row[OF c1[unfolded that] inxs] by (simp add: zip_star_def)
  have b1: "barriers calls1 = []" using issue_calls_eq[OF c1] by simp
  show "\<exists>e. fst (push_pull_xla cl self gs) = Inl e"
    unfolding push_pull_xla_def Let_def densified_grads
    using size c1 z by (cases r1) simp_all
  show "barriers (snd (snd (push_pull_xla cl self gs))) = []"
    unfolding push_pull_xla_def Let_def densified_grads
    using size c1 z b1 by (cases r1) simp_all
qed

lemma print_loop_completes:
  "\<forall>item. \<exists>u. print cl item = Inr u \<Longrightarrow> print_loop cl gs = Inr ()"
proof (induction gs)
  case Nil
  show ?case by simp
next
  case (Cons item gs)
  from Cons.prems obtain u where "print cl item = Inr u" by blast
  then show ?case using Cons.IH[OF Cons.prems] by simp
qed

lemma xla_method_after_print:
  "print_loop cl gs = Inr () \<Longrightarrow> push_pull_xla_method cl self gs = push_pull_xla cl self gs"
  by (simp add: push_pull_xla_method_def)

lemma xla_method_state:
  "fst (snd (push_pull_xla_method cl self gs)) =
     (case print_loop cl gs of Inl e \<Rightarrow> self | Inr u \<Rightarrow> self\<lparr>aggregated_gradients := True\<rparr>)"
  by (cases "print_loop cl gs") (simp_all add: push_pull_xla_method_def xla_state)

lemma self_push_pull_state:
  "fst (snd (self_push_pull cl self gs)) = self \<or>
   fst (snd (self_push_pull cl self gs)) = self\<lparr>aggregated_gradients := True\<rparr>"
proof (cases "push_pull_method self")
  case Push_pull_tf
  then show ?thesis by (simp add: self_push_pull_def tf_state)
next
  case Push_pull_xla
  then show ?thesis
    by (cases "print_loop cl gs") (simp_all add: self_push_pull_def xla_method_state)
qed

lemma self_push_pull_sets:
  assumes "push_pull_method self = Push_pull_tf \<or> (\<forall>item. \<exists>u. print cl item = Inr u)"
  shows "fst (snd (self_push_pull cl self gs)) = self\<lparr>aggregated_gradients := True\<rparr>"
proof (cases "push_pull_method self")
  case Push_pull_tf
  then show ?thesis by (simp add: self_push_pull_def tf_state)
next
  case Push_pull_xla
  with assms have "\<forall>item. \<exists>u. print cl item = Inr u" by simp
  then have "print_loop cl gs = Inr ()" by (rule print_loop_completes)
  then show ?thesis using Push_pull_xla by (simp add: self_push_pull_def xla_method_state)
qed

lemma invoke_state:
  "invoke cl self m = self \<or> invoke cl self m = self\<lparr>aggregated_gradients := True\<rparr>"
proof (cases m)
  case (Get_gradients base)
  show ?thesis
  proof (cases base)
    case (Inl e)
    then show ?thesis using Get_gradients by (simp add: get_gradients_def)
  next
    case (Inr gs)
    then show ?thesis using Get_gradients self_push_pull_state[of cl self gs]
      by (simp add: get_gradients_def)
  qed
next
  case (Aggregate_gradients gvs)
  then show ?thesis using self_push_pull_state[of cl self "map fst gvs"]
    by (simp add: aggregate_gradients_def)
next
  case (Apply_gradients args)
  then show ?thesis by simp
qed

lemma invoke_mode: "push_pull_method (invoke cl self m) = push_pull_method self"
  using invoke_state[of cl self m] by auto

lemma invoke_flag_kept:
  "aggregated_gradients self \<Longrightarrow> aggregated_gradients (invoke cl self m)"
  using invoke_state[of cl self m] by auto

lemma run_flag_kept:
  "aggregated_gradients self \<Longrightarrow> aggregated_gradients (foldl (invoke cl) self ms)"
  by (induction ms arbitrary: self) (simp_all add: invoke_flag_kept)

lemma invoke_flag_eq:
  assumes "push_pull_method self = Push_pull_tf \<or> (\<forall>item. \<exists>u. print cl item = Inr u)"
  shows "aggregated_gradients (invoke cl self m) \<longleftrightarrow>
           aggregated_gradients self \<or> reaches_push_pull m"
proof (cases m)
  case (Get_gradients base)
  show ?thesis
  proof (cases base)
    case (Inl e)
    then show ?thesis using Get_gradients by (simp add: get_gradients_def)
  next
    case (Inr gs)
    then show ?thesis using Get_gradients self_push_pull_sets[OF assms, of gs]
      by (simp add: get_gradients_def)
  qed
next
  case (Aggregate_gradients gvs)
  then show ?thesis using self_push_pull_sets[OF assms, of "map fst gvs"]
    by (simp add: aggregate_gradients_def)
next
  case (Apply_gradients args)
  then show ?thesis by simp
qed

lemma run_flag_eq:
  assumes "push_pull_method self = Push_pull_tf \<or> (\<forall>item. \<exists>u. print cl item = Inr u)"
  shows "aggregated_gradients (foldl (invoke cl) self ms) \<longleftrightarrow>
           aggregated_gradients self \<or> list_ex reaches_push_pull ms"
  using assms
proof (induction ms arbitrary: self)
  case Nil
  show ?case by simp
next
  case (Cons m ms)
  have mode: "push_pull_method (invoke cl self m) = Push_pull_tf \<or>
              (\<forall>item. \<exists>u. print cl item = Inr u)"
    using Cons.prems by (simp add: invoke_mode)
  have "aggregated_gradients (foldl (invoke cl) self (m # ms)) =
          aggregated_gradients (foldl (invoke cl) (invoke cl self m) ms)" by simp
  also have "\<dots> = (aggregated_gradients (invoke cl self m) \<or> list_ex reaches_push_pull ms)"
    by (rule Cons.IH[OF mode])
  also have "\<dots> = (aggregated_gradients self \<or> list_ex reaches_push_pull (m # ms))"
    using invoke_flag_eq[OF Cons.prems, of m] by auto
  finally show ?case .
qed

lemma xla_bound_empty_if_None:
  fixes cl :: "('a, 'n, 'h, 'c, 'b, 'e) client"
  assumes size: "1 < bps_size cl" and none: "None \<in> set gs"
  shows "bound (snd (snd (push_pull_xla cl self gs))) = []"
proof -
  let ?xs = "enumerate 1 (map (map_option (prepared cl (sparse_as_dense self))) gs)"
  obtain r1 calls1 where c1: "comprehension (issue cl) ?xs = (r1, calls1)"
    by (cases "comprehension (issue cl) ?xs")
  from none obtain k where k: "k < length gs" "gs ! k = None"
    by (auto simp add: in_set_conv_nth)
  then have inxs: "(Suc k, None) \<in> set ?xs"
    by (simp add: in_set_enumerate_eq)
  have z: "(zip_star rows :: 'e error + ('a list \<times> 'n list \<times> 'h list \<times> 'c list)) = Inl TypeError"
    if "r1 = Inr rows" for rows
    using issue_None_row[OF c1[unfolded that] inxs] by (simp add: zip_star_def)
  have b1: "bound calls1 = []" using issue_calls_eq[OF c1] by simp
  show ?thesis
    unfolding push_pull_xla_def Let_def densified_grads
    using size c1 z b1 by (cases r1) simp_all
qed

lemma xla_issued_positions:
  assumes "1 < bps_size cl"
  shows "(\<forall>(idx, g') \<in> set (issued (snd (snd (push_pull_xla cl self gs)))).
            1 \<le> idx \<and> idx \<le> length gs \<and>
            (\<exists>g. gs ! (idx - 1) = Some g \<and> g' = prepared cl (sparse_as_dense self) g)) \<and>
         distinct (map fst (issued (snd (snd (push_pull_xla cl self gs)))))"
proof -
  let ?calls = "snd (snd (push_pull_xla cl self gs))"
  let ?P = "\<lambda>(idx, g). (idx, prepared cl (sparse_as_dense self) g)"
  have iss: "issued ?calls =
               until_raise (\<lambda>(idx, g). push_pull_xla_handle_out_v2 cl g idx)
                 (map ?P (positioned gs))"
    by (rule xla_issued[OF assms])
  have sub: "set (issued ?calls) \<subseteq> set (map ?P (positioned gs))"
    unfolding iss by (rule until_raise_set)
  have c1: "1 \<le> idx \<and> idx \<le> length gs \<and>
            (\<exists>g. gs ! (idx - 1) = Some g \<and> g' = prepared cl (sparse_as_dense self) g)"
    if "(idx, g') \<in> set (issued ?calls)" for idx g'
  proof -
    from that sub have "(idx, g') \<in> ?P ` set (positioned gs)" by auto
    then obtain p where p: "p \<in> set (positioned gs)" "(idx, g') = ?P p" by (rule imageE)
    obtain i0 g0 where p0: "p = (i0, g0)" by (cases p)
    from p(2) p0 have "idx = i0" "g' = prepared cl (sparse_as_dense self) g0" by simp_all
    moreover from p(1) p0 have "1 \<le> i0 \<and> i0 \<le> length gs \<and> gs ! (i0 - 1) = Some g0"
      by (simp only: positioned_mem)
    ultimately show ?thesis by blast
  qed
  have "map fst (map ?P (positioned gs)) = map fst (positioned gs)"
    by (simp add: split_beta)
  then have "distinct (map fst (map ?P (positioned gs)))"
    by (simp only: positioned_distinct)
  then have c2: "distinct (map fst (issued ?calls))"
    unfolding iss by (rule until_raise_distinct)
  show ?thesis using c1 c2 by blast
qed

lemma aggregated_flag_facts:
  "\<not> aggregated_gradients (init enable_xla sad)"
  "aggregated_gradients (fst (snd (push_pull_tf cl self gs)))"
  "print_loop cl gs = Inr () \<Longrightarrow> aggregated_gradients (fst (snd (push_pull_xla_method cl self gs)))"
  "aggregated_gradients self \<Longrightarrow> aggregated_gradients (foldl (invoke cl) self ms)"
  by (simp_all add: init_def tf_state xla_method_state run_flag_kept)

section \<open>The claims\<close>



text \<open>
  C10. On the empty gradient list with more than one worker, the direct-mode aggregator
  returns the empty list, and the accelerated-mode aggregator raises: the transposed list
  of rows is empty and reading its element 0 is an \<^verbatim>\<open>IndexError\<close>. Neither makes a call.
\<close>

theorem empty_list_direct_returns_accelerated_raises:
  "1 < bps_size cl \<Longrightarrow>
     push_pull_tf cl self [] = (Inr [], self\<lparr>aggregated_gradients := True\<rparr>, []) \<and>
     push_pull_xla cl self [] = (Inl IndexError, self\<lparr>aggregated_gradients := True\<rparr>, [])"
  by (simp add: push_pull_tf_def push_pull_xla_def Let_def zip_star_def)

theorem empty_list_direct_returns_accelerated_raises_witness:
  "1 < bps_size (fake_client 2) \<and>
   fst (push_pull_tf (fake_client 2) (init ''0'' False) []) = Inr [] \<and>
   fst (push_pull_xla (fake_client 2) (init ''1'' False) []) = Inl IndexError"
proof -
  have h: "1 < bps_size (fake_client 2)" by (simp add: fake_client_def)
  show ?thesis
    using h empty_list_direct_returns_accelerated_raises [OF h, of "init ''0'' False"]
      empty_list_direct_returns_accelerated_raises [OF h, of "init ''1'' False"]
    by simp
qed

text \<open>
  C1. The claim asks both aggregators to return a list as long as the input with
  \<^verbatim>\<open>None\<close> at the same positions. The direct-mode loop does. The accelerated-mode
  aggregator keeps the \<^verbatim>\<open>None\<close> in its list of rows and then transposes the rows, which
  raises \<^verbatim>\<open>TypeError\<close>: on the list of one gradient followed by \<^verbatim>\<open>None\<close>, with two
  workers, it returns no list at all, where the direct mode returns both positions.
\<close>

theorem accelerated_mode_raises_on_None:
  "fst (push_pull_xla (fake_client 2) (init ''1'' False) [Some (Tensor 7), None]) = Inl TypeError \<and>
   fst (push_pull_tf (fake_client 2) (init ''0'' False) [Some (Tensor 7), None]) =
     Inr [Some (Tensor 7), None]"
  by (simp add: push_pull_xla_def push_pull_tf_def fake_client_def init_def Let_def issue_def
        zip_star_def)

text \<open>
  C3. The claim asks for exactly one barrier per request, over the handles of the
  gradients that are not \<^verbatim>\<open>None\<close>. On the list of \<^verbatim>\<open>None\<close> followed by one gradient, with
  two workers, the accelerated-mode aggregator issues the one asynchronous push-pull,
  with index 2, and raises before it reaches the barrier: the calls it made hold no
  barrier.
\<close>

theorem accelerated_mode_skips_barrier_on_None:
  "snd (snd (push_pull_xla (fake_client 2) (init ''1'' False) [None, Some (Tensor 7)])) =
     [PushPullXla (Tensor 7) 2] \<and>
   barriers (snd (snd (push_pull_xla (fake_client 2) (init ''1'' False) [None, Some (Tensor 7)]))) = []"
  by (simp add: push_pull_xla_def fake_client_def init_def Let_def issue_def zip_star_def)

text \<open>
  C9. Both aggregation paths set the flag before they call the collective client. When
  a path raises, the optimizer it leaves behind is the one it was given with the flag
  set, so a later \<^verbatim>\<open>apply_gradients\<close> passes the guard and reaches the base optimizer,
  although no aggregation completed.
\<close>

theorem flag_survives_failed_aggregation:
  "(fst (push_pull_tf cl self gs) = Inl e \<longrightarrow>
      fst (snd (push_pull_tf cl self gs)) = self\<lparr>aggregated_gradients := True\<rparr> \<and>
      apply_gradients super_apply_gradients (fst (snd (push_pull_tf cl self gs))) args =
        Inr (super_apply_gradients args)) \<and>
   (fst (push_pull_xla cl self gs) = Inl e \<longrightarrow>
      fst (snd (push_pull_xla cl self gs)) = self\<lparr>aggregated_gradients := True\<rparr> \<and>
      apply_gradients super_apply_gradients (fst (snd (push_pull_xla cl self gs))) args =
        Inr (super_apply_gradients args))"
  by (simp add: tf_state xla_state apply_gradients_def)

theorem flag_survives_failed_aggregation_witness:
  "fst (push_pull_tf unreachable_client (init ''0'' False) [Some (Tensor 1)]) =
     Inl (Failure ''unreachable'') \<and>
   fst (push_pull_xla unreachable_client (init ''1'' False) [Some (Tensor 1)]) =
     Inl (Failure ''unreachable'') \<and>
   \<not> aggregated_gradients (init ''0'' False) \<and>
   apply_gradients (\<lambda>args. args)
     (fst (snd (push_pull_tf unreachable_client (init ''0'' False) [Some (Tensor 1)]))) (0 :: nat) =
     (Inr 0 :: string error + nat) \<and>
   apply_gradients (\<lambda>args. args)
     (fst (snd (push_pull_xla unreachable_client (init ''1'' False) [Some (Tensor 1)]))) (0 :: nat) =
     (Inr 0 :: string error + nat)"
proof -
  have h1: "fst (push_pull_tf unreachable_client (init ''0'' False) [Some (Tensor 1)]) =
              Inl (Failure ''unreachable'')"
    by (simp add: push_pull_tf_def unreachable_client_def fake_client_def init_def Let_def)
  have h2: "fst (push_pull_xla unreachable_client (init ''1'' False) [Some (Tensor 1)]) =
              Inl (Failure ''unreachable'')"
    by (simp add: push_pull_xla_def unreachable_client_def fake_client_def init_def Let_def
          issue_def)
  have h3: "\<not> aggregated_gradients (init ''0'' False)"
    by (simp add: init_def)
  show ?thesis
    using h1 h2 h3
      flag_survives_failed_aggregation [of unreachable_client "init ''0'' False"
        "[Some (Tensor 1)]" "Failure ''unreachable''" "\<lambda>args. args" "0 :: nat"]
      flag_survives_failed_aggregation [of unreachable_client "init ''1'' False"
        "[Some (Tensor 1)]" "Failure ''unreachable''" "\<lambda>args. args" "0 :: nat"]
    by blast
qed

text \<open>
  C8. With more than one worker, the gradients handed to the push-pull calls, in both
  modes, are the gradients of the input list that are not \<^verbatim>\<open>None\<close>, in order, up to the
  first call that raises. When \<^verbatim>\<open>sparse_as_dense\<close> is set, each of them that is an
  \<^verbatim>\<open>IndexedSlices\<close> value is handed over as the dense tensor \<^verbatim>\<open>tf.convert_to_tensor\<close> makes of
  it, the dense ones as they are, and no \<^verbatim>\<open>IndexedSlices\<close> value reaches a push-pull. When
  the flag is not set, every gradient is handed over as it is.
\<close>

theorem sparse_gradients_densified_before_push_pull:
  assumes "1 < bps_size cl"
  shows "(sparse_as_dense self \<longrightarrow>
            handed (snd (snd (push_pull_tf cl self gs))) =
              until_raise (push_pull cl)
                (map (\<lambda>g. if isinstance_IndexedSlices g then Tensor (convert_to_tensor cl g) else g)
                   (present gs)) \<and>
            handed (snd (snd (push_pull_xla cl self gs))) =
              map snd (until_raise (\<lambda>(idx, g). push_pull_xla_handle_out_v2 cl g idx)
                (map (\<lambda>(idx, g). (idx, if isinstance_IndexedSlices g
                                          then Tensor (convert_to_tensor cl g) else g))
                   (positioned gs))) \<and>
            (\<forall>g \<in> set (handed (snd (snd (push_pull_tf cl self gs)))) \<union>
                   set (handed (snd (snd (push_pull_xla cl self gs)))).
               \<not> isinstance_IndexedSlices g)) \<and>
         (\<not> sparse_as_dense self \<longrightarrow>
            handed (snd (snd (push_pull_tf cl self gs))) =
              until_raise (push_pull cl) (present gs) \<and>
            handed (snd (snd (push_pull_xla cl self gs))) =
              map snd (until_raise (\<lambda>(idx, g). push_pull_xla_handle_out_v2 cl g idx)
                (positioned gs)))"
proof -
  let ?D = "\<lambda>g. if isinstance_IndexedSlices g then Tensor (convert_to_tensor cl g) else g"
  have tf: "handed (snd (snd (push_pull_tf cl self gs))) =
              until_raise (push_pull cl) (map (prepared cl (sparse_as_dense self)) (present gs))"
    by (simp add: tf_calls[OF assms])
  have xla: "handed (snd (snd (push_pull_xla cl self gs))) =
               map snd (until_raise (\<lambda>(idx, g). push_pull_xla_handle_out_v2 cl g idx)
                 (map (\<lambda>(idx, g). (idx, prepared cl (sparse_as_dense self) g)) (positioned gs)))"
    by (simp only: xla_handed[OF assms] xla_issued[OF assms])
  have on: "prepared cl True = ?D"
    by (rule ext) (simp add: prepared_def)
  have off: "prepared cl False = (\<lambda>g. g)"
    by (rule ext) (simp add: prepared_def)
  have dense: "\<not> isinstance_IndexedSlices g" if "g = ?D g0" for g g0
    using that by (cases g0) simp_all
  have tf_dense: "\<not> isinstance_IndexedSlices g"
    if "g \<in> set (until_raise (push_pull cl) (map ?D (present gs)))" for g
  proof -
    from that until_raise_set[of "push_pull cl" "map ?D (present gs)"]
    have "g \<in> set (map ?D (present gs))" by blast
    then have "g \<in> ?D ` set (present gs)" by (simp only: set_map)
    then obtain g0 where "g = ?D g0" by (rule imageE)
    then show ?thesis by (rule dense)
  qed
  have xla_dense: "\<not> isinstance_IndexedSlices g"
    if "g \<in> set (map snd (until_raise (\<lambda>(idx, g). push_pull_xla_handle_out_v2 cl g idx)
                (map (\<lambda>(idx, g). (idx, ?D g)) (positioned gs))))" for g
  proof -
    from that obtain idx where
      "(idx, g) \<in> set (until_raise (\<lambda>(idx, g). push_pull_xla_handle_out_v2 cl g idx)
                (map (\<lambda>(idx, g). (idx, ?D g)) (positioned gs)))"
      by auto
    with until_raise_set[of "\<lambda>(idx, g). push_pull_xla_handle_out_v2 cl g idx"
        "map (\<lambda>(idx, g). (idx, ?D g)) (positioned gs)"]
    have "(idx, g) \<in> set (map (\<lambda>(idx, g). (idx, ?D g)) (positioned gs))" by blast
    then have "(idx, g) \<in> (\<lambda>(idx, g). (idx, ?D g)) ` set (positioned gs)" by (simp only: set_map)
    then obtain p where p: "(idx, g) = (\<lambda>(idx, g). (idx, ?D g)) p" by (rule imageE)
    obtain i0 g0 where "p = (i0, g0)" by (cases p)
    with p have "g = ?D g0" by (simp only: prod.case prod.inject)
    then show ?thesis by (rule dense)
  qed
  show ?thesis
  proof (cases "sparse_as_dense self")
    case True
    have eq: "prepared cl (sparse_as_dense self) = ?D"
      using True on by simp
    have a: "handed (snd (snd (push_pull_tf cl self gs))) =
               until_raise (push_pull cl) (map ?D (present gs))"
      using tf by (simp only: eq)
    have b: "handed (snd (snd (push_pull_xla cl self gs))) =
               map snd (until_raise (\<lambda>(idx, g). push_pull_xla_handle_out_v2 cl g idx)
                 (map (\<lambda>(idx, g). (idx, ?D g)) (positioned gs)))"
      using xla by (simp only: eq)
    have c: "\<forall>g \<in> set (handed (snd (snd (push_pull_tf cl self gs)))) \<union>
                   set (handed (snd (snd (push_pull_xla cl self gs)))).
               \<not> isinstance_IndexedSlices g"
      unfolding a b using tf_dense xla_dense by blast
    show ?thesis using True a b c by blast
  next
    case False
    have eq: "prepared cl (sparse_as_dense self) = (\<lambda>g. g)"
      using False off by simp
    have a: "handed (snd (snd (push_pull_tf cl self gs))) = until_raise (push_pull cl) (present gs)"
      using tf by (simp add: eq)
    have b: "handed (snd (snd (push_pull_xla cl self gs))) =
               map snd (until_raise (\<lambda>(idx, g). push_pull_xla_handle_out_v2 cl g idx)
                 (positioned gs))"
      using xla by (simp add: eq)
    show ?thesis using False a b by blast
  qed
qed

theorem sparse_gradients_densified_before_push_pull_witness:
  "1 < bps_size (fake_client 2) \<and> sparse_as_dense (init ''0'' True) \<and>
   \<not> sparse_as_dense (init ''0'' False) \<and>
   handed (snd (snd (push_pull_tf (fake_client 2) (init ''0'' True)
             [Some (IndexedSlices 4), None, Some (Tensor 6)]))) = [Tensor 4, Tensor 6] \<and>
   handed (snd (snd (push_pull_tf (fake_client 2) (init ''0'' False)
             [Some (IndexedSlices 4), None, Some (Tensor 6)]))) = [IndexedSlices 4, Tensor 6]"
proof -
  have h: "1 < bps_size (fake_client 2)" by (simp add: fake_client_def)
  have s1: "sparse_as_dense (init ''0'' True)" by (simp add: init_def)
  have s0: "\<not> sparse_as_dense (init ''0'' False)" by (simp add: init_def)
  have a: "handed (snd (snd (push_pull_tf (fake_client 2) (init ''0'' True)
             [Some (IndexedSlices 4), None, Some (Tensor 6)]))) =
           until_raise (push_pull (fake_client 2))
             (map (\<lambda>g. if isinstance_IndexedSlices g
                        then Tensor (convert_to_tensor (fake_client 2) g) else g)
                (present [Some (IndexedSlices 4), None, Some (Tensor 6)]))"
    using s1 sparse_gradients_densified_before_push_pull [OF h, of "init ''0'' True"
        "[Some (IndexedSlices 4), None, Some (Tensor 6)]"]
    by blast
  have b: "handed (snd (snd (push_pull_tf (fake_client 2) (init ''0'' False)
             [Some (IndexedSlices 4), None, Some (Tensor 6)]))) =
           until_raise (push_pull (fake_client 2))
             (present [Some (IndexedSlices 4), None, Some (Tensor 6)])"
    using s0 sparse_gradients_densified_before_push_pull [OF h, of "init ''0'' False"
        "[Some (IndexedSlices 4), None, Some (Tensor 6)]"]
    by blast
  have a': "handed (snd (snd (push_pull_tf (fake_client 2) (init ''0'' True)
             [Some (IndexedSlices 4), None, Some (Tensor 6)]))) = [Tensor 4, Tensor 6]"
    unfolding a by (simp add: fake_client_def)
  have b': "handed (snd (snd (push_pull_tf (fake_client 2) (init ''0'' False)
             [Some (IndexedSlices 4), None, Some (Tensor 6)]))) = [IndexedSlices 4, Tensor 6]"
    unfolding b by (simp add: fake_client_def)
  show ?thesis using h s1 s0 a' b' by blast
qed

text \<open>
  C2. The claim asks that every asynchronous push-pull carries the position of its
  gradient in the whole list and that the bind to the barrier passes the same index for
  each result. The first half holds. The second does not on the request of the
  specification, gradients at positions 1, 3 and 5 with \<^verbatim>\<open>None\<close> at 2 and 4: with two
  workers the three operations are issued with the indices 1, 3 and 5, the transposition
  of the rows then raises \<^verbatim>\<open>TypeError\<close>, and no result is ever bound, under any index.
\<close>

theorem accelerated_mode_never_binds_positions_1_3_5:
  "fst (push_pull_xla_method (fake_client 2) (init ''1'' False)
          [Some (Tensor 4), None, Some (Tensor 6), None, Some (Tensor 8)]) = Inl TypeError \<and>
   issued (snd (snd (push_pull_xla_method (fake_client 2) (init ''1'' False)
          [Some (Tensor 4), None, Some (Tensor 6), None, Some (Tensor 8)]))) =
     [(1, Tensor 4), (3, Tensor 6), (5, Tensor 8)] \<and>
   bound (snd (snd (push_pull_xla_method (fake_client 2) (init ''1'' False)
          [Some (Tensor 4), None, Some (Tensor 6), None, Some (Tensor 8)]))) = []"
  by (simp add: push_pull_xla_method_def push_pull_xla_def fake_client_def init_def Let_def
        issue_def zip_star_def eval_nat_numeral)

text \<open>
  C4. As stated, the claim fails, also with more than one worker: a push-pull call that
  raises ends the request, and the gradients after it get no call. With two workers and
  a client whose push-pull raises, two gradients give one call.
\<close>

theorem raising_push_pull_ends_the_calls_counterexample:
  "1 < bps_size unreachable_client \<and>
   snd (snd (push_pull_tf unreachable_client (init ''0'' False)
               [Some (Tensor 1), Some (Tensor 2)])) = [PushPull (Tensor 1)] \<and>
   present [Some (Tensor 1), Some (Tensor (2 :: nat))] = [Tensor 1, Tensor 2]"
  by (simp add: push_pull_tf_def unreachable_client_def fake_client_def init_def Let_def)

text \<open>
  C4, amended. With more than one worker, in both modes the push-pull calls are issued
  in the order of the gradients in the input list, one for each gradient that is not
  \<^verbatim>\<open>None\<close>, until a raise ends the request: a push-pull call that raises is the last call
  made, and in the accelerated mode a \<^verbatim>\<open>print\<close> that raises ends the request before any
  call. When nothing raises there is exactly one call for each gradient that is not
  \<^verbatim>\<open>None\<close>; in the accelerated mode each call carries the position of its gradient in the
  input list. The sequence of calls is a function of the input list, the
  \<^verbatim>\<open>sparse_as_dense\<close> flag and the answers of the collaborators.
\<close>

theorem push_pull_calls_in_input_order_until_raise:
  assumes "1 < bps_size cl"
  shows "snd (snd (push_pull_tf cl self gs)) =
           map PushPull (until_raise (push_pull cl)
             (map (prepared cl (sparse_as_dense self)) (present gs))) \<and>
         issued (snd (snd (push_pull_xla_method cl self gs))) =
           (case print_loop cl gs of
              Inl e \<Rightarrow> []
            | Inr u \<Rightarrow>
                until_raise (\<lambda>(idx, g). push_pull_xla_handle_out_v2 cl g idx)
                  (map (\<lambda>(idx, g). (idx, prepared cl (sparse_as_dense self) g)) (positioned gs))) \<and>
         ((\<forall>g. \<exists>y. push_pull cl g = Inr y) \<longrightarrow>
            snd (snd (push_pull_tf cl self gs)) =
              map PushPull (map (prepared cl (sparse_as_dense self)) (present gs))) \<and>
         ((\<forall>item. \<exists>u. print cl item = Inr u) \<and>
          (\<forall>g idx. \<exists>r. push_pull_xla_handle_out_v2 cl g idx = Inr r) \<longrightarrow>
            issued (snd (snd (push_pull_xla_method cl self gs))) =
              map (\<lambda>(idx, g). (idx, prepared cl (sparse_as_dense self) g)) (positioned gs))"
proof -
  let ?L = "\<lambda>(idx, g). push_pull_xla_handle_out_v2 cl g idx"
  let ?P = "\<lambda>(idx, g). (idx, prepared cl (sparse_as_dense self) g)"
  have tf: "snd (snd (push_pull_tf cl self gs)) =
           map PushPull (until_raise (push_pull cl)
             (map (prepared cl (sparse_as_dense self)) (present gs)))"
    by (rule tf_calls[OF assms])
  have xla: "issued (snd (snd (push_pull_xla_method cl self gs))) =
           (case print_loop cl gs of
              Inl e \<Rightarrow> []
            | Inr u \<Rightarrow> until_raise ?L (map ?P (positioned gs)))"
  proof (cases "print_loop cl gs")
    case (Inl e)
    then show ?thesis by (simp add: push_pull_xla_method_def)
  next
    case (Inr u)
    then show ?thesis
      using xla_issued[OF assms, of self gs] by (simp add: push_pull_xla_method_def)
  qed
  have tf_all: "snd (snd (push_pull_tf cl self gs)) =
              map PushPull (map (prepared cl (sparse_as_dense self)) (present gs))"
    if ok: "\<forall>g. \<exists>y. push_pull cl g = Inr y"
  proof -
    have "until_raise (push_pull cl) (map (prepared cl (sparse_as_dense self)) (present gs)) =
            map (prepared cl (sparse_as_dense self)) (present gs)"
      using ok by (intro until_raise_all) blast
    with tf show ?thesis by simp
  qed
  have xla_all: "issued (snd (snd (push_pull_xla_method cl self gs))) = map ?P (positioned gs)"
    if pr: "\<forall>item. \<exists>u. print cl item = Inr u"
      and ok: "\<forall>g idx. \<exists>r. push_pull_xla_handle_out_v2 cl g idx = Inr r"
  proof -
    have p: "print_loop cl gs = Inr ()" using pr by (rule print_loop_completes)
    have "until_raise ?L (map ?P (positioned gs)) = map ?P (positioned gs)"
      using ok by (intro until_raise_all) (simp add: split_beta)
    with xla p show ?thesis by simp
  qed
  show ?thesis
    using tf xla tf_all xla_all by blast
qed

theorem push_pull_calls_in_input_order_until_raise_witness:
  "1 < bps_size (fake_client 2) \<and>
   (\<forall>g. \<exists>y. push_pull (fake_client 2) g = Inr y) \<and>
   (\<forall>item. \<exists>u. print (fake_client 2) item = Inr u) \<and>
   (\<forall>g idx. \<exists>r. push_pull_xla_handle_out_v2 (fake_client 2) g idx = Inr r) \<and>
   snd (snd (push_pull_tf (fake_client 2) (init ''0'' True)
               [Some (IndexedSlices 4), None, Some (Tensor 6)])) =
     [PushPull (Tensor 4), PushPull (Tensor 6)] \<and>
   issued (snd (snd (push_pull_xla_method (fake_client 2) (init ''1'' True)
               [Some (IndexedSlices 4), None, Some (Tensor 6)]))) =
     [(1, Tensor 4), (3, Tensor 6)] \<and>
   issued (snd (snd (push_pull_xla_method closed_stdout_client (init ''1'' True)
               [Some (IndexedSlices 4), None, Some (Tensor 6)]))) = []"
proof -
  let ?gs = "[Some (IndexedSlices 4), None, Some (Tensor 6)] :: nat grad option list"
  have h: "1 < bps_size (fake_client 2)" by (simp add: fake_client_def)
  have hc: "1 < bps_size closed_stdout_client"
    by (simp add: closed_stdout_client_def fake_client_def)
  have h1: "\<forall>g. \<exists>y. push_pull (fake_client 2) g = Inr y" by (simp add: fake_client_def)
  have h2: "\<forall>g idx. \<exists>r. push_pull_xla_handle_out_v2 (fake_client 2) g idx = Inr r"
    by (simp add: fake_client_def)
  have h3: "\<forall>item. \<exists>u. print (fake_client 2) item = Inr u" by (simp add: fake_client_def)
  have p: "map (prepared (fake_client 2) (sparse_as_dense (init ''0'' True))) (present ?gs) =
             [Tensor 4, Tensor 6]"
    by (simp add: prepared_def fake_client_def init_def)
  have q: "map (\<lambda>(idx, g). (idx, prepared (fake_client 2) (sparse_as_dense (init ''1'' True)) g))
             (positioned ?gs) = [(1, Tensor 4), (3, Tensor 6)]"
    by (simp add: prepared_def fake_client_def init_def positioned_def eval_nat_numeral)
  have r: "print_loop closed_stdout_client ?gs = Inl (Failure ''I/O operation on closed file'')"
    by (simp add: closed_stdout_client_def)
  have a: "snd (snd (push_pull_tf (fake_client 2) (init ''0'' True) ?gs)) =
             map PushPull (map (prepared (fake_client 2) (sparse_as_dense (init ''0'' True)))
               (present ?gs))"
    using h1 push_pull_calls_in_input_order_until_raise [OF h, of "init ''0'' True" ?gs]
    by blast
  have b: "issued (snd (snd (push_pull_xla_method (fake_client 2) (init ''1'' True) ?gs))) =
             map (\<lambda>(idx, g). (idx, prepared (fake_client 2) (sparse_as_dense (init ''1'' True)) g))
               (positioned ?gs)"
    using h2 h3 push_pull_calls_in_input_order_until_raise [OF h, of "init ''1'' True" ?gs]
    by blast
  have c: "issued (snd (snd (push_pull_xla_method closed_stdout_client (init ''1'' True) ?gs))) =
             (case print_loop closed_stdout_client ?gs of
                Inl e \<Rightarrow> []
              | Inr u \<Rightarrow>
                  until_raise (\<lambda>(idx, g). push_pull_xla_handle_out_v2 closed_stdout_client g idx)
                    (map (\<lambda>(idx, g). (idx, prepared closed_stdout_client
                                               (sparse_as_dense (init ''1'' True)) g))
                       (positioned ?gs)))"
    using push_pull_calls_in_input_order_until_raise [OF hc, of "init ''1'' True" ?gs]
    by blast
  have a': "snd (snd (push_pull_tf (fake_client 2) (init ''0'' True) ?gs)) =
             [PushPull (Tensor 4), PushPull (Tensor 6)]"
    unfolding a p by simp
  have b': "issued (snd (snd (push_pull_xla_method (fake_client 2) (init ''1'' True) ?gs))) =
             [(1, Tensor 4), (3, Tensor 6)]"
    unfolding b q by simp
  have c': "issued (snd (snd (push_pull_xla_method closed_stdout_client (init ''1'' True) ?gs))) = []"
    unfolding c r by simp
  show ?thesis
    using h h1 h2 h3 a' b' c' by blast
qed

text \<open>
  C6. As stated, the claim fails: a \<^verbatim>\<open>get_gradients\<close> call in which the base optimizer's
  \<^verbatim>\<open>get_gradients\<close> raises never reaches \<^verbatim>\<open>self._push_pull\<close>, so the flag stays false and
  the update step raises although an aggregation call has occurred.
\<close>

theorem apply_gradients_after_failed_get_gradients_counterexample:
  "apply_gradients Suc
     (foldl (invoke (fake_client 2)) (init ''0'' False)
        [Get_gradients (Inl ''None gradient'') :: (nat, nat, nat, string) method_call])
     0 =
   (Inl (Exception (''`apply_gradients()` was called without a call to `get_gradients()` or '' @
                      ''`_aggregate_gradients`. If you'' @ [CHR 0x27] @ ''re using TensorFlow 2.0, '' @
                      ''please specify `experimental_run_tf_function=False` in `compile()`.'')) :: string error + nat)"
  by (simp add: apply_gradients_def apply_gradients_message_def get_gradients_def init_def)

text \<open>
  C6, amended. After any history of method calls on a freshly constructed optimizer,
  \<^verbatim>\<open>apply_gradients\<close> raises the exception whose message names the missing call
  (\<^verbatim>\<open>get_gradients()\<close> or \<^verbatim>\<open>_aggregate_gradients\<close>) exactly when no call of the history
  has invoked \<^verbatim>\<open>self._push_pull\<close>, which \<^verbatim>\<open>_aggregate_gradients\<close> always does and
  \<^verbatim>\<open>get_gradients\<close> does once the base optimizer's \<^verbatim>\<open>get_gradients\<close> has returned; in
  particular it raises on a fresh optimizer. Otherwise it returns what the base
  optimizer's \<^verbatim>\<open>apply_gradients\<close> returns. This is stated for the direct mode, and for the
  accelerated mode when \<^verbatim>\<open>print\<close> does not raise.
\<close>

theorem apply_gradients_guard_after_history:
  assumes "enable_xla \<noteq> ''1'' \<or> (\<forall>item. \<exists>u. print cl item = Inr u)"
  shows "apply_gradients super_apply_gradients (foldl (invoke cl) (init enable_xla sad) ms) args =
           (if list_ex reaches_push_pull ms then Inr (super_apply_gradients args)
            else Inl (Exception (''`apply_gradients()` was called without a call to `get_gradients()` or '' @
                      ''`_aggregate_gradients`. If you'' @ [CHR 0x27] @ ''re using TensorFlow 2.0, '' @
                      ''please specify `experimental_run_tf_function=False` in `compile()`.'')))"
proof -
  have mode: "push_pull_method (init enable_xla sad) = Push_pull_tf \<or>
              (\<forall>item. \<exists>u. print cl item = Inr u)"
    using assms by (auto simp add: init_def)
  have "aggregated_gradients (foldl (invoke cl) (init enable_xla sad) ms) =
          list_ex reaches_push_pull ms"
    using run_flag_eq[OF mode, of ms] by (simp add: init_def)
  then show ?thesis
    by (simp add: apply_gradients_def apply_gradients_message_def)
qed

theorem apply_gradients_guard_after_history_witness:
  "apply_gradients Suc
     (foldl (invoke closed_stdout_client) (init ''0'' False)
        ([] :: (nat, nat, nat, string) method_call list)) 0 =
     (Inl (Exception (''`apply_gradients()` was called without a call to `get_gradients()` or '' @
                      ''`_aggregate_gradients`. If you'' @ [CHR 0x27] @ ''re using TensorFlow 2.0, '' @
                      ''please specify `experimental_run_tf_function=False` in `compile()`.'')) :: string error + nat) \<and>
   apply_gradients Suc
     (foldl (invoke closed_stdout_client) (init ''0'' False)
        [Aggregate_gradients [(Some (Tensor 3), 0)] :: (nat, nat, nat, string) method_call]) 0 =
     (Inr 1 :: string error + nat) \<and>
   apply_gradients Suc
     (foldl (invoke (fake_client 2)) (init ''1'' False)
        [Apply_gradients 0, Get_gradients (Inr [None]) :: (nat, nat, nat, string) method_call]) 0 =
     (Inr 1 :: string error + nat) \<and>
   apply_gradients Suc
     (foldl (invoke (fake_client 2)) (init ''1'' False)
        [Get_gradients (Inl ''None gradient'') :: (nat, nat, nat, string) method_call]) 0 =
     (Inl (Exception (''`apply_gradients()` was called without a call to `get_gradients()` or '' @
                      ''`_aggregate_gradients`. If you'' @ [CHR 0x27] @ ''re using TensorFlow 2.0, '' @
                      ''please specify `experimental_run_tf_function=False` in `compile()`.'')) :: string error + nat)"
proof -
  have h0: "''0'' \<noteq> ''1'' \<or> (\<forall>item. \<exists>u. print closed_stdout_client item = Inr u)"
    by simp
  have h1: "''1'' \<noteq> ''1'' \<or> (\<forall>item. \<exists>u. print (fake_client 2) item = Inr u)"
    by (simp add: fake_client_def)
  show ?thesis
    using apply_gradients_guard_after_history [OF h0, of Suc False
        "[] :: (nat, nat, nat, string) method_call list" 0]
      apply_gradients_guard_after_history [OF h0, of Suc False
        "[Aggregate_gradients [(Some (Tensor 3), 0)] :: (nat, nat, nat, string) method_call]" 0]
      apply_gradients_guard_after_history [OF h1, of Suc False
        "[Apply_gradients 0, Get_gradients (Inr [None]) :: (nat, nat, nat, string) method_call]" 0]
      apply_gradients_guard_after_history [OF h1, of Suc False
        "[Get_gradients (Inl ''None gradient'') :: (nat, nat, nat, string) method_call]" 0]
    by simp
qed

text \<open>
  C7. The claim asks that every invocation of either aggregation path sets the flag.
  The direct path writes it in its first statement. The accelerated path writes it after
  its print loop: when a \<^verbatim>\<open>print\<close> raises, as on a closed standard output, the invocation
  ends with the flag of a fresh optimizer still false, where the direct path, with the
  same client and gradient, leaves it true.
\<close>

theorem accelerated_mode_print_raise_leaves_flag_unset:
  "fst (push_pull_xla_method closed_stdout_client (init ''1'' False) [Some (Tensor 7)]) =
     Inl (Failure ''I/O operation on closed file'') \<and>
   \<not> aggregated_gradients
       (fst (snd (push_pull_xla_method closed_stdout_client (init ''1'' False) [Some (Tensor 7)]))) \<and>
   aggregated_gradients
     (fst (snd (push_pull_tf closed_stdout_client (init ''0'' False) [Some (Tensor 7)])))"
  by (simp add: push_pull_xla_method_def push_pull_tf_def closed_stdout_client_def
        fake_client_def init_def Let_def)

end
